theory Spec2Isabelle
  imports Complex_Main
begin

section \<open>Strings\<close>

text \<open>
  A Python \<open>str\<close> is modelled as a \<open>string\<close>, each \<open>char\<close> standing for one code point
  below 256. Texts with code points from 256 on are outside the model.
\<close>

definition startswith :: "string \<Rightarrow> string \<Rightarrow> bool" where
  \<comment> \<open>\<open>s.startswith(p)\<close>\<close>
  "startswith s p = (take (length p) s = p)"

fun split_from :: "char \<Rightarrow> string \<Rightarrow> string \<Rightarrow> string list" where
  \<comment> \<open>second argument: the characters of the field read so far\<close>
  "split_from c cur [] = [cur]"
| "split_from c cur (x # xs) =
     (if x = c then cur # split_from c [] xs else split_from c (cur @ [x]) xs)"

definition str_split :: "char \<Rightarrow> string \<Rightarrow> string list" where
  \<comment> \<open>\<open>s.split(c)\<close> for a separator of one character: one field more than separators\<close>
  "str_split c s = split_from c [] s"

definition is_linebreak :: "char \<Rightarrow> bool" where
  \<comment> \<open>the line boundaries of \<open>str.splitlines\<close> below code point 256\<close>
  "is_linebreak c = (c \<in> set [CHR 0x0A, CHR 0x0B, CHR 0x0C, CHR 0x0D, CHR 0x1C, CHR 0x1D, CHR 0x1E, CHR 0x85])"

fun splitlines_from :: "string \<Rightarrow> string \<Rightarrow> string list" where
  \<comment> \<open>first argument: the characters of the line read so far\<close>
  "splitlines_from cur [] = (if cur = [] then [] else [cur])"
| "splitlines_from cur [c] = (if is_linebreak c then [cur] else [cur @ [c]])"
| "splitlines_from cur (c # d # cs) =
     (if c = CHR 0x0D \<and> d = CHR 0x0A then cur # splitlines_from [] cs
      else if is_linebreak c then cur # splitlines_from [] (d # cs)
      else splitlines_from (cur @ [c]) (d # cs))"

definition splitlines :: "string \<Rightarrow> string list" where
  \<comment> \<open>\<open>s.splitlines()\<close>: \<open>\r\n\<close> is one boundary, no empty last line after a final boundary\<close>
  "splitlines s = splitlines_from [] s"

definition is_space :: "char \<Rightarrow> bool" where
  \<comment> \<open>the characters \<open>str.strip()\<close> removes, below code point 256\<close>
  "is_space c = (c \<in> set [CHR 0x09, CHR 0x0A, CHR 0x0B, CHR 0x0C, CHR 0x0D,
                           CHR 0x1C, CHR 0x1D, CHR 0x1E, CHR 0x1F, CHR 0x20, CHR 0x85, CHR 0xA0])"

definition str_strip :: "string \<Rightarrow> string" where
  \<comment> \<open>\<open>s.strip()\<close>\<close>
  "str_strip s = rev (dropWhile is_space (rev (dropWhile is_space s)))"

fun str_join :: "string \<Rightarrow> string list \<Rightarrow> string" where
  \<comment> \<open>\<open>sep.join(xs)\<close>\<close>
  "str_join sep [] = []"
| "str_join sep [x] = x"
| "str_join sep (x # y # ys) = x @ sep @ str_join sep (y # ys)"

section \<open>Exceptions, environment and state\<close>

datatype py_exn =
    ValueError string
  | KeyError string
  | IndexError
  | RequestException string
  | FileNotFoundError
  | IsADirectoryError string
  | SystemExit nat

datatype response =
    RequestFailed string
    \<comment> \<open>\<open>requests.get\<close> or \<open>raise_for_status\<close> raises a \<open>RequestException\<close> with this text\<close>
  | Response "string list" "string option"
    \<comment> \<open>the chunks of the body; \<open>Some e\<close>: reading the body raises a
        \<open>RequestException\<close> with text \<open>e\<close> after these chunks\<close>

text \<open>
  What the program reads from outside and cannot change: the network, the builtin \<open>float\<close>
  (\<open>Inl\<close> the text of the \<open>ValueError\<close> it raises; its values are idealised to reals, so
  rounding, infinities and NaN are outside the model), whether \<open>ffmpeg\<close> is on the path,
  and the working directory.
\<close>

record env =
  requests_get :: "string \<Rightarrow> response"
  pyfloat :: "string \<Rightarrow> string + real"
  ffmpeg_installed :: bool
  getcwd :: string

text \<open>
  What the program changes: the lines printed, the files by path, the URLs requested in
  order, the counter of the progress bar and the subprocesses started.
\<close>

record world =
  stdout :: "string list"
  fs :: "string \<rightharpoonup> string"
  requested :: "string list"
  progress :: real
  subprocess_calls :: "string list list"

text \<open>The dict built by \<open>parse_m3u8_file\<close>: the keys \<open>'duration'\<close> and \<open>'url'\<close>, each present or not.\<close>

record segment =
  duration :: "real option"
  url :: "string option"

definition empty_segment :: segment where
  "empty_segment = \<lparr>duration = None, url = None\<rparr>"

section \<open>Paths (posixpath)\<close>

definition os_path_join :: "string \<Rightarrow> string \<Rightarrow> string" where
  "os_path_join a b =
     (if startswith b ''/'' then b
      else if a = [] \<or> last a = CHR ''/'' then a @ b
      else a @ ''/'' @ b)"

definition normpath_step :: "nat \<Rightarrow> string list \<Rightarrow> string \<Rightarrow> string list" where
  "normpath_step initial_slashes new_comps part =
     (if part = [] \<or> part = ''.'' then new_comps
      else if part \<noteq> ''..'' \<or> (initial_slashes = 0 \<and> new_comps = [])
                \<or> (new_comps \<noteq> [] \<and> last new_comps = ''..'')
           then new_comps @ [part]
      else if new_comps \<noteq> [] then butlast new_comps
      else new_comps)"

definition normpath :: "string \<Rightarrow> string" where
  "normpath path =
     (if path = [] then ''.''
      else
        let initial_slashes =
              (if startswith path ''/''
               then (if startswith path ''//'' \<and> \<not> startswith path ''///'' then 2 else 1)
               else (0::nat));
            comps = foldl (normpath_step initial_slashes) [] (str_split CHR ''/'' path);
            p = replicate initial_slashes CHR ''/'' @ str_join ''/'' comps
        in if p = [] then ''.'' else p)"

definition abspath :: "env \<Rightarrow> string \<Rightarrow> string" where
  "abspath e path =
     normpath (if startswith path ''/'' then path else os_path_join (getcwd e) path)"

section \<open>The program\<close>

definition download_m3u8_file :: "env \<Rightarrow> string \<Rightarrow> world \<Rightarrow> (py_exn + string) \<times> world" where
  "download_m3u8_file e m3u8_url w =
     (let w1 = w\<lparr>requested := requested w @ [m3u8_url]\<rparr>;
          failed = (\<lambda>msg. (Inl (SystemExit 1),
                      w1\<lparr>stdout := stdout w1 @ [''Error downloading M3U8 file: '' @ msg]\<rparr>))
      in case requests_get e m3u8_url of
           RequestFailed msg \<Rightarrow> failed msg
         | Response chunks (Some msg) \<Rightarrow> failed msg
         | Response chunks None \<Rightarrow> (Inr (concat chunks), w1))"

fun parse_lines :: "env \<Rightarrow> string list \<Rightarrow> segment \<Rightarrow> segment list \<Rightarrow> py_exn + segment list" where
  \<comment> \<open>the loop of \<open>parse_m3u8_file\<close>, with \<open>current_segment\<close> and \<open>segment_urls\<close>\<close>
  "parse_lines e [] current_segment segment_urls = Inr segment_urls"
| "parse_lines e (line # rest) current_segment segment_urls =
     (if startswith line ''#EXTINF:'' then
        (case str_split CHR '':'' line of
           _ # field # _ \<Rightarrow>
             (case pyfloat e (hd (str_split CHR '','' field)) of
                Inl msg \<Rightarrow> Inl (ValueError msg)
              | Inr d \<Rightarrow> parse_lines e rest (current_segment\<lparr>duration := Some d\<rparr>) segment_urls)
         | _ \<Rightarrow> Inl IndexError)
      else if \<not> startswith line ''#'' then
        parse_lines e rest empty_segment
          (segment_urls @ [current_segment\<lparr>url := Some (str_strip line)\<rparr>])
      else parse_lines e rest current_segment segment_urls)"

definition parse_m3u8_file :: "env \<Rightarrow> string \<Rightarrow> py_exn + segment list" where
  "parse_m3u8_file e m3u8_content = parse_lines e (splitlines m3u8_content) empty_segment []"

definition unpack_error :: "nat \<Rightarrow> string" where
  \<comment> \<open>the text of the \<open>ValueError\<close> of \<open>h, m, s = ...\<close> on an iterator of \<open>n\<close> values\<close>
  "unpack_error n =
     (if n = 1 then ''not enough values to unpack (expected 3, got 1)''
      else if n = 2 then ''not enough values to unpack (expected 3, got 2)''
      else ''too many values to unpack (expected 3)'')"

fun first_float_error :: "env \<Rightarrow> string list \<Rightarrow> string option" where
  \<comment> \<open>\<open>map(float, ...)\<close> is lazy: the first field that does not convert raises\<close>
  "first_float_error e [] = None"
| "first_float_error e (field # rest) =
     (case pyfloat e field of Inl msg \<Rightarrow> Some msg | Inr _ \<Rightarrow> first_float_error e rest)"

definition convert_time_to_seconds :: "env \<Rightarrow> string \<Rightarrow> py_exn + real" where
  "convert_time_to_seconds e time_str =
     (let fields = str_split CHR '':'' time_str in
      case first_float_error e (take 4 fields) of
        Some msg \<Rightarrow> Inl (ValueError msg)
      | None \<Rightarrow>
          (case map (pyfloat e) fields of
             [Inr h, Inr m, Inr s] \<Rightarrow> Inr (h * 3600 + m * 60 + s)
           | _ \<Rightarrow> Inl (ValueError (unpack_error (length fields)))))"

definition segment_basename :: "string \<Rightarrow> string" where
  \<comment> \<open>\<open>segment_url.split('/')[-1].split('?')[0]\<close>\<close>
  "segment_basename segment_url = hd (str_split CHR ''?'' (last (str_split CHR ''/'' segment_url)))"

definition segment_name :: "string \<Rightarrow> string" where
  "segment_name segment_url = os_path_join ''segments'' (segment_basename segment_url)"

definition is_directory :: "string \<Rightarrow> bool" where
  \<comment> \<open>the names under \<open>segments/\<close> that \<open>open(..., 'wb')\<close> refuses: the directory itself,
      \<open>.\<close> and \<open>..\<close>\<close>
  "is_directory b = (b = [] \<or> b = ''.'' \<or> b = ''..'')"

fun download_loop ::
  "env \<Rightarrow> real \<Rightarrow> real \<Rightarrow> segment list \<Rightarrow> real \<Rightarrow> string list \<Rightarrow> world
     \<Rightarrow> (py_exn + string list) \<times> world" where
  \<comment> \<open>the \<open>for\<close> loop of \<open>download_segments\<close>, with \<open>current_time\<close> and \<open>segment_files\<close>\<close>
  "download_loop e start_time end_time [] current_time segment_files w = (Inr segment_files, w)"
| "download_loop e start_time end_time (seg # rest) current_time segment_files w =
     (case url seg of
        None \<Rightarrow> (Inl (KeyError ''url''), w)
      | Some segment_url \<Rightarrow>
     (case duration seg of
        None \<Rightarrow> (Inl (KeyError ''duration''), w)
      | Some segment_duration \<Rightarrow>
          if current_time + segment_duration < start_time then
            download_loop e start_time end_time rest (current_time + segment_duration) segment_files w
          else if current_time > end_time then (Inr segment_files, w)
          else
            (let w1 = w\<lparr>requested := requested w @ [segment_url]\<rparr> in
             case requests_get e segment_url of
               RequestFailed msg \<Rightarrow>
                 (Inl (SystemExit 1),
                  w1\<lparr>stdout := stdout w1 @ [''Error downloading segment '' @ segment_url @ '': '' @ msg]\<rparr>)
             | Response chunks broken \<Rightarrow>
                 if is_directory (segment_basename segment_url)
                 then (Inl (IsADirectoryError (segment_name segment_url)), w1)
                 else
                   (let w2 = w1\<lparr>fs := (fs w1)(segment_name segment_url \<mapsto>
                                        concat (filter (\<lambda>chunk. chunk \<noteq> []) chunks))\<rparr> in
                    case broken of
                      Some msg \<Rightarrow> (Inl (RequestException msg), w2)
                    | None \<Rightarrow>
                        download_loop e start_time end_time rest (current_time + segment_duration)
                          (segment_files @ [segment_name segment_url])
                          (w2\<lparr>progress := progress w2 + segment_duration\<rparr>)))))"

fun total_duration :: "segment list \<Rightarrow> py_exn + real" where
  \<comment> \<open>\<open>sum([segment['duration'] for segment in segment_urls])\<close>\<close>
  "total_duration [] = Inr 0"
| "total_duration (seg # rest) =
     (case duration seg of
        None \<Rightarrow> Inl (KeyError ''duration'')
      | Some d \<Rightarrow> (case total_duration rest of Inl x \<Rightarrow> Inl x | Inr t \<Rightarrow> Inr (d + t)))"

definition truthy :: "string option \<Rightarrow> bool" where
  \<comment> \<open>\<open>if start_time:\<close> is false on \<open>None\<close> and on the empty string\<close>
  "truthy s = (s \<noteq> None \<and> s \<noteq> Some [])"

definition time_window ::
  "env \<Rightarrow> segment list \<Rightarrow> string option \<Rightarrow> string option \<Rightarrow> py_exn + real \<times> real" where
  \<comment> \<open>lines 81 to 92 of \<open>download_segments\<close>\<close>
  "time_window e segment_urls start_time end_time =
     (case total_duration segment_urls of
        Inl x \<Rightarrow> Inl x
      | Inr total_dur \<Rightarrow>
     (case (if truthy start_time then convert_time_to_seconds e (the start_time) else Inr 0) of
        Inl x \<Rightarrow> Inl x
      | Inr start \<Rightarrow>
     (case (if truthy end_time then convert_time_to_seconds e (the end_time) else Inr total_dur) of
        Inl x \<Rightarrow> Inl x
      | Inr end' \<Rightarrow> Inr (start, end'))))"

definition download_segments ::
  "env \<Rightarrow> segment list \<Rightarrow> string option \<Rightarrow> string option \<Rightarrow> world
     \<Rightarrow> (py_exn + string list) \<times> world" where
  "download_segments e segment_urls start_time end_time w =
     (case time_window e segment_urls start_time end_time of
        Inl x \<Rightarrow> (Inl x, w)
      | Inr (start, end') \<Rightarrow> download_loop e start end' segment_urls 0 [] (w\<lparr>progress := 0\<rparr>))"

definition concat_line :: "env \<Rightarrow> string \<Rightarrow> string" where
  \<comment> \<open>\<open>f"file '{os.path.abspath(segment)}'\n"\<close>\<close>
  "concat_line e seg = ''file '' @ [CHR 0x27] @ abspath e seg @ [CHR 0x27, CHR 0x0A]"

definition create_concat_file :: "env \<Rightarrow> string list \<Rightarrow> world \<Rightarrow> string \<times> world" where
  "create_concat_file e segment_files w =
     (''segments.txt'',
      w\<lparr>fs := (fs w)(''segments.txt'' \<mapsto> foldl (\<lambda>f seg. f @ concat_line e seg) [] segment_files)\<rparr>)"

definition ffmpeg_args :: "string \<Rightarrow> string \<Rightarrow> string list" where
  "ffmpeg_args concat_file output_file =
     [''ffmpeg'', ''-f'', ''concat'', ''-safe'', ''0'', ''-i'', concat_file, ''-fflags'', ''+igndts'',
      ''-c:v'', ''libx264'', ''-c:a'', ''aac'', output_file]"

definition combine_segments :: "env \<Rightarrow> string \<Rightarrow> string \<Rightarrow> world \<Rightarrow> (py_exn + unit) \<times> world" where
  "combine_segments e concat_file output_file w =
     (if ffmpeg_installed e
      then (Inr (), w\<lparr>subprocess_calls := subprocess_calls w @ [ffmpeg_args concat_file output_file]\<rparr>)
      else (Inl (SystemExit 1),
            w\<lparr>stdout := stdout w @
                 [''Error: ffmpeg command not found. Make sure ffmpeg is installed and added to your PATH.'']\<rparr>))"

definition cleanup_files :: "string list \<Rightarrow> string \<Rightarrow> world \<Rightarrow> world" where
  \<comment> \<open>\<open>shutil.rmtree('segments')\<close>, then \<open>os.remove(concat_file)\<close>\<close>
  "cleanup_files segment_files concat_file w =
     w\<lparr>fs := (\<lambda>p. if startswith p ''segments/'' \<or> p = concat_file then None else fs w p)\<rparr>"

record args =
  m3u8_url :: string
  output_file :: string
  start_arg :: "string option"
  end_arg :: "string option"

definition download_video :: "env \<Rightarrow> args \<Rightarrow> world \<Rightarrow> (py_exn + unit) \<times> world" where
  "download_video e a w =
     (case download_m3u8_file e (m3u8_url a) w of
        (Inl x, w1) \<Rightarrow> (Inl x, w1)
      | (Inr m3u8_content, w1) \<Rightarrow>
     (case parse_m3u8_file e m3u8_content of
        Inl x \<Rightarrow> (Inl x, w1)
      | Inr segment_urls \<Rightarrow>
     (case download_segments e segment_urls (start_arg a) (end_arg a) w1 of
        (Inl x, w2) \<Rightarrow> (Inl x, w2)
      | (Inr segment_files, w2) \<Rightarrow>
     (case create_concat_file e segment_files w2 of
        (concat_file, w3) \<Rightarrow>
     (case combine_segments e concat_file (output_file a) w3 of
        (Inl x, w4) \<Rightarrow> (Inl x, w4)
      | (Inr _, w4) \<Rightarrow>
          (let w5 = cleanup_files segment_files concat_file w4 in
           (Inr (), w5\<lparr>stdout := stdout w5 @
              [[CHR 0x0A] @ ''Video saved as '' @ output_file a @ '' and temporary files cleaned up.'']\<rparr>)))))))"

datatype outcome = Finished | Exited nat | Traceback py_exn

definition main :: "env \<Rightarrow> args \<Rightarrow> world \<Rightarrow> outcome \<times> world" where
  \<comment> \<open>the \<open>try\<close> of the script: a \<open>ValueError\<close> is printed and exits with 1, \<open>SystemExit\<close>
      exits, any other exception is not caught\<close>
  "main e a w =
     (case download_video e a w of
        (Inr _, w1) \<Rightarrow> (Finished, w1)
      | (Inl (ValueError msg), w1) \<Rightarrow> (Exited 1, w1\<lparr>stdout := stdout w1 @ [''Error: '' @ msg]\<rparr>)
      | (Inl (SystemExit n), w1) \<Rightarrow> (Exited n, w1)
      | (Inl x, w1) \<Rightarrow> (Traceback x, w1))"

definition exit_status :: "outcome \<Rightarrow> nat" where
  "exit_status out = (case out of Finished \<Rightarrow> 0 | Exited n \<Rightarrow> n | Traceback _ \<Rightarrow> 1)"

section \<open>An environment for the examples\<close>

text \<open>
  An instance of the parameter \<open>pyfloat\<close> for the examples: blanks stripped, a sign, digits,
  at most one point. On these strings the builtin \<open>float\<close> returns the same number; its
  other literals (exponents, underscores, \<open>inf\<close>, \<open>nan\<close>) are not used in any example.
\<close>

definition digit_value :: "char \<Rightarrow> nat option" where
  "digit_value = map_of [(CHR ''0'', 0), (CHR ''1'', 1), (CHR ''2'', 2), (CHR ''3'', 3), (CHR ''4'', 4),
                         (CHR ''5'', 5), (CHR ''6'', 6), (CHR ''7'', 7), (CHR ''8'', 8), (CHR ''9'', 9)]"

fun digits_value :: "nat \<Rightarrow> string \<Rightarrow> nat option" where
  "digits_value acc [] = Some acc"
| "digits_value acc (c # cs) =
     (case digit_value c of None \<Rightarrow> None | Some d \<Rightarrow> digits_value (10 * acc + d) cs)"

definition unsigned_decimal :: "string \<Rightarrow> real option" where
  "unsigned_decimal s =
     (case str_split CHR ''.'' s of
        [i] \<Rightarrow> if i = [] then None else map_option real (digits_value 0 i)
      | [i, f] \<Rightarrow>
          if i = [] \<and> f = [] then None
          else (case (digits_value 0 i, digits_value 0 f) of
                  (Some a, Some b) \<Rightarrow> Some (real a + real b / 10 ^ length f)
                | _ \<Rightarrow> None)
      | _ \<Rightarrow> None)"

definition decimal_float :: "string \<Rightarrow> string + real" where
  "decimal_float s =
     (let t = str_strip s;
          negative = (t \<noteq> [] \<and> hd t = CHR ''-'');
          body = (if t \<noteq> [] \<and> (hd t = CHR ''-'' \<or> hd t = CHR ''+'') then tl t else t)
      in case unsigned_decimal body of
           None \<Rightarrow> Inl (''could not convert string to float: '' @ [CHR 0x27] @ s @ [CHR 0x27])
         | Some v \<Rightarrow> Inr (if negative then - v else v))"

definition example_manifest :: string where
  \<comment> \<open>three segments of four seconds\<close>
  "example_manifest =
     ''#EXTM3U'' @ [CHR 0x0A] @
     ''#EXTINF:4.0,'' @ [CHR 0x0A] @ ''http://h/v/seg1.ts?t=1'' @ [CHR 0x0A] @
     ''#EXTINF:4.0,'' @ [CHR 0x0A] @ ''http://h/v/seg2.ts?t=1'' @ [CHR 0x0A] @
     ''#EXTINF:4.0,'' @ [CHR 0x0A] @ ''http://h/v/seg3.ts?t=1'' @ [CHR 0x0A] @
     ''#EXT-X-ENDLIST'' @ [CHR 0x0A]"

definition example_get :: "string \<Rightarrow> response" where
  \<comment> \<open>a server that has the manifest, and for any other URL one chunk: the URL itself\<close>
  "example_get u =
     (if u = ''http://h/v.m3u8'' then Response [example_manifest] None
      else Response [u] None)"

definition example_env :: env where
  "example_env = \<lparr>requests_get = example_get, pyfloat = decimal_float,
                    ffmpeg_installed = True, getcwd = ''/home/u''\<rparr>"

definition empty_world :: world where
  "empty_world = \<lparr>stdout = [], fs = Map.empty, requested = [], progress = 0, subprocess_calls = []\<rparr>"

definition example_args :: args where
  "example_args = \<lparr>m3u8_url = ''http://h/v.m3u8'', output_file = ''ft_video.mp4'',
                     start_arg = None, end_arg = None\<rparr>"

section \<open>The selection of \<open>download_segments\<close>, without its input and output\<close>

fun buildPlan :: "real \<Rightarrow> real \<Rightarrow> real \<Rightarrow> segment list \<Rightarrow> segment list" where
  \<comment> \<open>the descriptors that the loop of \<open>download_segments\<close> (lines 97 to 123) reaches
      line 108 with: the two tests and the two updates of \<open>current_time\<close>, nothing else\<close>
  "buildPlan start_time end_time current_time [] = []"
| "buildPlan start_time end_time current_time (seg # rest) =
     (case duration seg of
        None \<Rightarrow> []
      | Some segment_duration \<Rightarrow>
          if current_time + segment_duration < start_time then
            buildPlan start_time end_time (current_time + segment_duration) rest
          else if current_time > end_time then []
          else seg # buildPlan start_time end_time (current_time + segment_duration) rest)"

definition well_formed :: "segment list \<Rightarrow> bool" where
  \<comment> \<open>every descriptor has both keys\<close>
  "well_formed segs = (\<forall>s\<in>set segs. duration s \<noteq> None \<and> url s \<noteq> None)"

definition dur :: "segment \<Rightarrow> real" where
  "dur s = the (duration s)"

definition segment_file :: "segment \<Rightarrow> string" where
  \<comment> \<open>the local path of a descriptor\<close>
  "segment_file s = segment_name (the (url s))"

definition body :: "env \<Rightarrow> segment \<Rightarrow> string" where
  \<comment> \<open>what the server sends for a descriptor\<close>
  "body e s = (case requests_get e (the (url s)) of
                 Response chunks _ \<Rightarrow> concat (filter (\<lambda>chunk. chunk \<noteq> []) chunks)
               | RequestFailed _ \<Rightarrow> [])"

definition fetch_ok :: "env \<Rightarrow> segment \<Rightarrow> bool" where
  \<comment> \<open>the request for the descriptor succeeds, the body arrives whole and the local
      path can be opened for writing\<close>
  "fetch_ok e s =
     (case url s of
        None \<Rightarrow> False
      | Some u \<Rightarrow>
          (case requests_get e u of Response _ None \<Rightarrow> True | _ \<Rightarrow> False)
          \<and> \<not> is_directory (segment_basename u))"

definition current_time_at :: "real \<Rightarrow> segment list \<Rightarrow> nat \<Rightarrow> real" where
  \<comment> \<open>\<open>current_time\<close> when descriptor \<open>i\<close> is reached, from \<open>t0\<close> at the first: the
      durations of all descriptors before it\<close>
  "current_time_at t0 segs i = t0 + sum_list (map dur (take i segs))"

definition skip_rule :: "real \<Rightarrow> real \<Rightarrow> segment list \<Rightarrow> nat \<Rightarrow> bool" where
  "skip_rule start_time t0 segs i = (current_time_at t0 segs i + dur (segs ! i) < start_time)"

definition stop_rule :: "real \<Rightarrow> real \<Rightarrow> real \<Rightarrow> segment list \<Rightarrow> nat \<Rightarrow> bool" where
  \<comment> \<open>the \<open>break\<close> of line 106 is after the \<open>continue\<close> of line 104\<close>
  "stop_rule start_time end_time t0 segs i =
     (\<not> skip_rule start_time t0 segs i \<and> current_time_at t0 segs i > end_time)"

definition stop_index :: "real \<Rightarrow> real \<Rightarrow> real \<Rightarrow> segment list \<Rightarrow> nat" where
  \<comment> \<open>the first descriptor at which the stop rule holds, or the length\<close>
  "stop_index start_time end_time t0 segs =
     length (takeWhile (\<lambda>i. \<not> stop_rule start_time end_time t0 segs i) [0..<length segs])"

definition write_segments :: "env \<Rightarrow> segment list \<Rightarrow> (string \<rightharpoonup> string) \<Rightarrow> (string \<rightharpoonup> string)" where
  \<comment> \<open>the files after the bodies of the descriptors are written in order\<close>
  "write_segments e plan files = foldl (\<lambda>f s. f(segment_file s \<mapsto> body e s)) files plan"

definition example_segments :: "segment list" where
  \<comment> \<open>what \<open>parse_m3u8_file\<close> returns on \<open>example_manifest\<close>\<close>
  "example_segments =
     [\<lparr>duration = Some 4, url = Some ''http://h/v/seg1.ts?t=1''\<rparr>,
      \<lparr>duration = Some 4, url = Some ''http://h/v/seg2.ts?t=1''\<rparr>,
      \<lparr>duration = Some 4, url = Some ''http://h/v/seg3.ts?t=1''\<rparr>]"

definition negative_manifest :: string where
  \<comment> \<open>a manifest whose second duration is negative\<close>
  "negative_manifest =
     ''#EXTINF:10.0,'' @ [CHR 0x0A] @ ''http://h/a.ts'' @ [CHR 0x0A] @
     ''#EXTINF:-8.0,'' @ [CHR 0x0A] @ ''http://h/b.ts'' @ [CHR 0x0A] @
     ''#EXTINF:4.0,'' @ [CHR 0x0A] @ ''http://h/c.ts'' @ [CHR 0x0A]"

definition negative_segments :: "segment list" where
  "negative_segments =
     [\<lparr>duration = Some 10, url = Some ''http://h/a.ts''\<rparr>,
      \<lparr>duration = Some (- 8), url = Some ''http://h/b.ts''\<rparr>,
      \<lparr>duration = Some 4, url = Some ''http://h/c.ts''\<rparr>]"

definition serve :: "string \<Rightarrow> string \<Rightarrow> response" where
  \<comment> \<open>a server that has the given manifest, and for any other URL one chunk: the URL itself\<close>
  "serve manifest u =
     (if u = ''http://h/v.m3u8'' then Response [manifest] None else Response [u] None)"

definition env_with :: "string \<Rightarrow> env" where
  "env_with manifest = example_env\<lparr>requests_get := serve manifest\<rparr>"

definition keyless_manifest :: string where
  \<comment> \<open>a URL line with no duration tag before it\<close>
  "keyless_manifest =
     ''seg0.ts'' @ [CHR 0x0A] @ ''#EXTINF:4.0,'' @ [CHR 0x0A] @ ''seg1.ts'' @ [CHR 0x0A]"

definition keyless_segments :: "segment list" where
  "keyless_segments =
     [\<lparr>duration = None, url = Some ''seg0.ts''\<rparr>, \<lparr>duration = Some 4, url = Some ''seg1.ts''\<rparr>]"

definition blank_manifest :: string where
  \<comment> \<open>a duration tag followed by a blank line only\<close>
  "blank_manifest = ''#EXTINF:4.0,'' @ [CHR 0x0A, CHR 0x0A]"

definition dangling_manifest :: string where
  \<comment> \<open>the last duration tag is followed by a directive only\<close>
  "dangling_manifest =
     ''#EXTINF:4.0,'' @ [CHR 0x0A] @ ''http://h/v/seg1.ts'' @ [CHR 0x0A] @
     ''#EXTINF:5.0,'' @ [CHR 0x0A] @ ''#EXT-X-ENDLIST'' @ [CHR 0x0A]"

definition text_lines :: "string \<Rightarrow> string list" where
  \<comment> \<open>the lines of a text file, each ended by a line feed\<close>
  "text_lines s =
     (let fields = str_split (CHR 0x0A) s in if last fields = [] then butlast fields else fields)"


definition bad_manifest :: string where
  \<comment> \<open>a duration tag whose value is not a number\<close>
  "bad_manifest = ''#EXTINF:abc,'' @ [CHR 0x0A] @ ''seg.ts'' @ [CHR 0x0A]"

definition offline_env :: env where
  \<comment> \<open>every request fails\<close>
  "offline_env = example_env\<lparr>requests_get := (\<lambda>u. RequestFailed ''404 Client Error'')\<rparr>"

definition broken_get :: "string \<Rightarrow> response" where
  \<comment> \<open>the server of the examples, without the second segment\<close>
  "broken_get u =
     (if u = ''http://h/v/seg2.ts?t=1'' then RequestFailed ''404 Client Error''
      else serve example_manifest u)"

definition broken_env :: env where
  "broken_env = example_env\<lparr>requests_get := broken_get\<rparr>"

definition no_ffmpeg_env :: env where
  "no_ffmpeg_env = example_env\<lparr>ffmpeg_installed := False\<rparr>"

section \<open>Evaluating the examples\<close>

lemmas example_float_simps = example_env_def decimal_float_def unsigned_decimal_def str_strip_def
  is_space_def digit_value_def str_split_def

lemmas example_parse_simps = parse_m3u8_file_def splitlines_def is_linebreak_def startswith_def
  empty_segment_def example_float_simps

lemmas example_loop_simps = example_env_def example_get_def segment_name_def segment_basename_def
  os_path_join_def startswith_def is_directory_def empty_world_def str_split_def

section \<open>The loop of \<open>download_segments\<close>\<close>

lemma current_time_at_0 [simp]: "current_time_at t0 segs 0 = t0"
  by (simp add: current_time_at_def)

lemma current_time_at_Suc [simp]:
  "current_time_at t0 (seg # rest) (Suc i) = current_time_at (t0 + dur seg) rest i"
  by (simp add: current_time_at_def)

lemma skip_rule_0 [simp]: "skip_rule st t0 (seg # rest) 0 = (t0 + dur seg < st)"
  by (simp add: skip_rule_def)

lemma skip_rule_Suc [simp]:
  "skip_rule st t0 (seg # rest) (Suc i) = skip_rule st (t0 + dur seg) rest i"
  by (simp add: skip_rule_def)

lemma stop_rule_0 [simp]: "stop_rule st en t0 (seg # rest) 0 = (\<not> t0 + dur seg < st \<and> t0 > en)"
  by (simp add: stop_rule_def)

lemma stop_rule_Suc [simp]:
  "stop_rule st en t0 (seg # rest) (Suc i) = stop_rule st en (t0 + dur seg) rest i"
  by (simp add: stop_rule_def)

lemma upt_Suc_shift: "[0..<Suc n] = 0 # map Suc [0..<n]"
  by (simp add: upt_conv_Cons map_Suc_upt del: upt_Suc)

lemma stop_index_Nil [simp]: "stop_index st en t0 [] = 0"
  by (simp add: stop_index_def)

lemma stop_index_Cons:
  "stop_index st en t0 (seg # rest) =
     (if stop_rule st en t0 (seg # rest) 0 then 0 else Suc (stop_index st en (t0 + dur seg) rest))"
  by (simp add: stop_index_def upt_Suc_shift takeWhile_map comp_def del: upt_Suc)

lemma stop_index_le: "stop_index st en t0 segs \<le> length segs"
  unfolding stop_index_def by (metis length_takeWhile_le length_upt diff_zero)

lemma buildPlan_closed:
  "well_formed segs \<Longrightarrow>
   buildPlan st en t0 segs =
     map (nth segs) (filter (\<lambda>i. \<not> skip_rule st t0 segs i) [0..<stop_index st en t0 segs])"
proof (induction segs arbitrary: t0)
  case Nil
  then show ?case by simp
next
  case (Cons seg rest)
  then obtain d where d: "duration seg = Some d" and wf: "well_formed rest"
    by (auto simp: well_formed_def)
  have dd: "dur seg = d" using d by (simp add: dur_def)
  show ?case
    using Cons.IH [OF wf, of "t0 + d"]
    by (simp add: d dd stop_index_Cons upt_Suc_shift filter_map comp_def del: upt_Suc)
qed

lemma write_segments_Nil [simp]: "write_segments e [] f = f"
  by (simp add: write_segments_def)

lemma write_segments_Cons [simp]:
  "write_segments e (s # plan) f = write_segments e plan (f(segment_file s \<mapsto> body e s))"
  by (simp add: write_segments_def)

lemma download_loop_success:
  "well_formed segs \<Longrightarrow> \<forall>s\<in>set (buildPlan st en t0 segs). fetch_ok e s \<Longrightarrow>
   download_loop e st en segs t0 files w =
     (Inr (files @ map segment_file (buildPlan st en t0 segs)),
      w\<lparr>requested := requested w @ map (\<lambda>s. the (url s)) (buildPlan st en t0 segs),
        fs := write_segments e (buildPlan st en t0 segs) (fs w),
        progress := progress w + sum_list (map dur (buildPlan st en t0 segs))\<rparr>)"
proof (induction segs arbitrary: t0 files w)
  case Nil
  then show ?case by simp
next
  case (Cons seg rest)
  then obtain d u where d: "duration seg = Some d" and u: "url seg = Some u"
    and wf: "well_formed rest"
    by (auto simp: well_formed_def)
  show ?case
  proof (cases "t0 + d < st")
    case True
    then show ?thesis using Cons.IH [OF wf, of "t0 + d" files w] Cons.prems(2)
      by (simp add: d u)
  next
    case False
    show ?thesis
    proof (cases "t0 > en")
      case True
      then show ?thesis using False by (simp add: d u)
    next
      case notstop: False
      have plan: "buildPlan st en t0 (seg # rest) = seg # buildPlan st en (t0 + d) rest"
        using False notstop by (simp add: d)
      from Cons.prems(2) have "\<forall>s\<in>set (seg # buildPlan st en (t0 + d) rest). fetch_ok e s"
        unfolding plan .
      then have ok: "fetch_ok e seg"
        and oks: "\<forall>s\<in>set (buildPlan st en (t0 + d) rest). fetch_ok e s"
        by simp_all
      from ok obtain chunks where r: "requests_get e u = Response chunks None"
        and nd: "\<not> is_directory (segment_basename u)"
        by (auto simp: fetch_ok_def u split: response.splits option.splits)
      show ?thesis
        using False notstop
        by (simp add: d u r nd plan Cons.IH [OF wf oks] segment_file_def body_def dur_def)
    qed
  qed
qed

lemma download_segments_loop:
  "time_window e segs a b = Inr (st, en) \<Longrightarrow>
   download_segments e segs a b w = download_loop e st en segs 0 [] (w\<lparr>progress := 0\<rparr>)"
  by (simp add: download_segments_def)

lemma buildPlan_no_skip:
  "well_formed segs \<Longrightarrow> \<forall>s\<in>set segs. 0 \<le> dur s \<Longrightarrow> st \<le> t0 \<Longrightarrow>
   \<exists>j. buildPlan st en t0 segs = take j segs"
proof (induction segs arbitrary: t0)
  case Nil
  then show ?case by simp
next
  case (Cons seg rest)
  then obtain d where d: "duration seg = Some d" and wf: "well_formed rest" and nn: "0 \<le> d"
    by (auto simp: well_formed_def dur_def)
  from Cons.prems nn have "st \<le> t0 + d" by simp
  from Cons.IH [OF wf _ this] Cons.prems(2)
  obtain j where j: "buildPlan st en (t0 + d) rest = take j rest" by auto
  show ?case
  proof (cases "t0 > en")
    case True
    then have "buildPlan st en t0 (seg # rest) = take 0 (seg # rest)"
      using Cons.prems(3) nn by (simp add: d)
    then show ?thesis by blast
  next
    case False
    then have "buildPlan st en t0 (seg # rest) = take (Suc j) (seg # rest)"
      using Cons.prems(3) nn j by (simp add: d)
    then show ?thesis by blast
  qed
qed

lemma buildPlan_contiguous:
  "well_formed segs \<Longrightarrow> \<forall>s\<in>set segs. 0 \<le> dur s \<Longrightarrow>
   \<exists>i j. buildPlan st en t0 segs = take j (drop i segs)"
proof (induction segs arbitrary: t0)
  case Nil
  then show ?case by simp
next
  case (Cons seg rest)
  then obtain d where d: "duration seg = Some d" and wf: "well_formed rest" and nn: "0 \<le> d"
    and nns: "\<forall>s\<in>set rest. 0 \<le> dur s"
    by (auto simp: well_formed_def dur_def)
  show ?case
  proof (cases "t0 + d < st")
    case True
    from Cons.IH [OF wf nns, of "t0 + d"]
    obtain i j where "buildPlan st en (t0 + d) rest = take j (drop i rest)" by blast
    then have "buildPlan st en t0 (seg # rest) = take j (drop (Suc i) (seg # rest))"
      using True by (simp add: d)
    then show ?thesis by blast
  next
    case False
    then have "st \<le> t0 + d" by simp
    from buildPlan_no_skip [OF wf nns this]
    obtain j where j: "buildPlan st en (t0 + d) rest = take j rest" by blast
    show ?thesis
    proof (cases "t0 > en")
      case True
      then have "buildPlan st en t0 (seg # rest) = take 0 (drop 0 (seg # rest))"
        using False by (simp add: d)
      then show ?thesis by blast
    next
      case notstop: False
      then have "buildPlan st en t0 (seg # rest) = take (Suc j) (drop 0 (seg # rest))"
        using False j by (simp add: d)
      then show ?thesis by blast
    qed
  qed
qed



lemma download_loop_take_stop:
  "well_formed segs \<Longrightarrow>
   download_loop e st en segs t0 files w =
   download_loop e st en (take (stop_index st en t0 segs) segs) t0 files w"
proof (induction segs arbitrary: t0 files w)
  case Nil
  then show ?case by simp
next
  case (Cons seg rest)
  then obtain d u where d: "duration seg = Some d" and u: "url seg = Some u"
    and wf: "well_formed rest"
    by (auto simp: well_formed_def)
  have dd: "dur seg = d" using d by (simp add: dur_def)
  note IH = Cons.IH [OF wf, of "t0 + d", symmetric]
  show ?case
  proof (cases "\<not> t0 + d < st \<and> t0 > en")
    case True
    then show ?thesis by (simp add: d u dd stop_index_Cons)
  next
    case False
    then have si: "stop_index st en t0 (seg # rest) = Suc (stop_index st en (t0 + d) rest)"
      by (simp add: stop_index_Cons dd)
    show ?thesis unfolding si using False
      by (simp add: d u IH Let_def split: response.splits option.splits)
  qed
qed

lemma download_loop_past_end:
  "well_formed segs \<Longrightarrow> \<forall>s\<in>set segs. 0 \<le> dur s \<Longrightarrow> t0 > en \<Longrightarrow>
   download_loop e st en segs t0 files w = (Inr files, w)"
proof (induction segs arbitrary: t0)
  case Nil
  then show ?case by simp
next
  case (Cons seg rest)
  then obtain d u where d: "duration seg = Some d" and u: "url seg = Some u"
    and wf: "well_formed rest" and nn: "0 \<le> d" and nns: "\<forall>s\<in>set rest. 0 \<le> dur s"
    by (auto simp: well_formed_def dur_def)
  have "t0 + d > en" using Cons.prems(3) nn by simp
  from Cons.IH [OF wf nns this] show ?case using Cons.prems(3)
    by (simp add: d u)
qed

lemma download_loop_take_past_end:
  "well_formed segs \<Longrightarrow> \<forall>s\<in>set segs. 0 \<le> dur s \<Longrightarrow> i < length segs \<Longrightarrow>
   current_time_at t0 segs i > en \<Longrightarrow>
   download_loop e st en segs t0 files w = download_loop e st en (take i segs) t0 files w"
proof (induction segs arbitrary: t0 files w i)
  case Nil
  then show ?case by simp
next
  case (Cons seg rest)
  then obtain d u where d: "duration seg = Some d" and u: "url seg = Some u"
    and wf: "well_formed rest" and nn: "0 \<le> d" and nns: "\<forall>s\<in>set rest. 0 \<le> dur s"
    by (auto simp: well_formed_def dur_def)
  have dd: "dur seg = d" using d by (simp add: dur_def)
  show ?case
  proof (cases i)
    case 0
    then have "t0 > en" using Cons.prems(4) by simp
    from download_loop_past_end [OF Cons.prems(1,2) this] show ?thesis
      using 0 by simp
  next
    case (Suc k)
    then have k: "k < length rest" and ct: "current_time_at (t0 + d) rest k > en"
      using Cons.prems(3,4) by (simp_all add: dd)
    note IH = Cons.IH [OF wf nns k ct, symmetric]
    show ?thesis unfolding Suc
      by (simp add: d u IH Let_def split: response.splits option.splits)
  qed
qed

lemma stop_index_least:
  "(\<forall>i<stop_index st en t0 segs. \<not> stop_rule st en t0 segs i)
   \<and> (stop_index st en t0 segs < length segs \<longrightarrow>
        stop_rule st en t0 segs (stop_index st en t0 segs))"
proof -
  let ?P = "\<lambda>i. \<not> stop_rule st en t0 segs i"
  let ?xs = "[0..<length segs]"
  let ?k = "length (takeWhile ?P ?xs)"
  have a: "\<forall>i<?k. ?P (?xs ! i)"
    by (metis nth_mem set_takeWhileD takeWhile_nth)
  have kle: "?k \<le> length segs"
    by (metis length_takeWhile_le length_upt diff_zero)
  have b: "?k < length ?xs \<longrightarrow> \<not> ?P (?xs ! ?k)"
    using nth_length_takeWhile by blast
  show ?thesis
    unfolding stop_index_def using a b kle by auto
qed

lemma example_parse: "parse_m3u8_file example_env example_manifest = Inr example_segments"
  by (simp add: example_manifest_def example_segments_def example_parse_simps)

lemma example_window:
  "time_window example_env example_segments (Some ''00:00:05'') (Some ''00:00:09'') = Inr (5, 9)"
  by (simp add: time_window_def example_segments_def truthy_def convert_time_to_seconds_def
      example_float_simps)

lemma example_well_formed: "well_formed example_segments"
  by (simp add: well_formed_def example_segments_def)

lemma example_fetch_ok: "\<forall>s\<in>set example_segments. fetch_ok example_env s"
  by (simp add: example_segments_def fetch_ok_def example_loop_simps)

lemma example_nonneg: "\<forall>s\<in>set example_segments. 0 \<le> dur s"
  by (simp add: example_segments_def dur_def)

lemma example_plan:
  "buildPlan 5 9 0 example_segments = [example_segments ! 1, example_segments ! 2]"
  by (simp add: example_segments_def)

lemma buildPlan_subset: "set (buildPlan st en t0 segs) \<subseteq> set segs"
  by (induction segs arbitrary: t0) (auto split: option.splits if_splits)

lemma download_loop_files:
  assumes "well_formed segs" and "\<forall>s\<in>set segs. fetch_ok e s"
  shows "download_loop e st en segs t0 files w =
     (Inr (files @ map segment_file (buildPlan st en t0 segs)),
      w\<lparr>requested := requested w @ map (\<lambda>s. the (url s)) (buildPlan st en t0 segs),
        fs := write_segments e (buildPlan st en t0 segs) (fs w),
        progress := progress w + sum_list (map dur (buildPlan st en t0 segs))\<rparr>)"
proof -
  from assms(2) buildPlan_subset [of st en t0 segs]
  have "\<forall>s\<in>set (buildPlan st en t0 segs). fetch_ok e s" by blast
  from download_loop_success [OF assms(1) this] show ?thesis .
qed

lemma example_files:
  "map segment_file [example_segments ! 1, example_segments ! 2]
     = [''segments/seg2.ts'', ''segments/seg3.ts'']"
  by (simp add: example_segments_def segment_file_def example_loop_simps)

lemma example_download:
  "fst (download_segments example_env example_segments (Some ''00:00:05'') (Some ''00:00:09'') w)
     = Inr [''segments/seg2.ts'', ''segments/seg3.ts'']"
  unfolding download_segments_loop [OF example_window]
    download_loop_files [OF example_well_formed example_fetch_ok] example_plan
  using example_files by simp

section \<open>The stop rule\<close>

text \<open>
  C1, as amended. The loop of \<open>download_segments\<close> stops, and leaves out every descriptor
  from there on, exactly at the first descriptor that the skip rule does not skip and that
  is reached with \<open>current_time > end_time\<close>: the test of line 105 comes after the
  \<open>continue\<close> of line 104 and before the segment is processed. Up to that descriptor
  every descriptor that is not skipped is in the plan. When all durations are non-negative,
  every descriptor reached with \<open>current_time > end_time\<close>, and all after it, are left out.
  For three segments of four seconds with start 5 and end 9 the plan is the second and the
  third segment.
\<close>

theorem stop_rule_spec:
  "(well_formed segs \<longrightarrow>
      download_loop e st en segs 0 files w =
        download_loop e st en (take (stop_index st en 0 segs) segs) 0 files w
      \<and> (\<forall>i<stop_index st en 0 segs. \<not> stop_rule st en 0 segs i)
      \<and> (stop_index st en 0 segs < length segs \<longrightarrow>
           stop_rule st en 0 segs (stop_index st en 0 segs))
      \<and> (\<forall>i<stop_index st en 0 segs. \<not> skip_rule st 0 segs i \<longrightarrow>
           segs ! i \<in> set (buildPlan st en 0 segs)))
   \<and> (well_formed segs \<and> (\<forall>s\<in>set segs. 0 \<le> dur s) \<and> i < length segs
        \<and> current_time_at 0 segs i > en \<longrightarrow>
      download_loop e st en segs 0 files w = download_loop e st en (take i segs) 0 files w)
   \<and> parse_m3u8_file example_env example_manifest = Inr example_segments
   \<and> time_window example_env example_segments (Some ''00:00:05'') (Some ''00:00:09'') = Inr (5, 9)
   \<and> fst (download_segments example_env example_segments (Some ''00:00:05'') (Some ''00:00:09'')
             empty_world)
       = Inr (map segment_file [example_segments ! 1, example_segments ! 2])"
proof (intro conjI impI)
  assume wf: "well_formed segs"
  show "download_loop e st en segs 0 files w =
        download_loop e st en (take (stop_index st en 0 segs) segs) 0 files w"
    by (rule download_loop_take_stop [OF wf])
  show "\<forall>i<stop_index st en 0 segs. \<not> stop_rule st en 0 segs i"
    using stop_index_least [of st en 0 segs] by blast
  show "\<forall>i<stop_index st en 0 segs. \<not> skip_rule st 0 segs i \<longrightarrow>
           segs ! i \<in> set (buildPlan st en 0 segs)"
    unfolding buildPlan_closed [OF wf] by auto
next
  assume "stop_index st en 0 segs < length segs"
  then show "stop_rule st en 0 segs (stop_index st en 0 segs)"
    using stop_index_least [of st en 0 segs] by blast
next
  assume "well_formed segs \<and> (\<forall>s\<in>set segs. 0 \<le> dur s) \<and> i < length segs
        \<and> current_time_at 0 segs i > en"
  then show "download_loop e st en segs 0 files w = download_loop e st en (take i segs) 0 files w"
    by (intro download_loop_take_past_end) simp_all
next
  show "parse_m3u8_file example_env example_manifest = Inr example_segments"
    by (rule example_parse)
  show "time_window example_env example_segments (Some ''00:00:05'') (Some ''00:00:09'') = Inr (5, 9)"
    by (rule example_window)
  show "fst (download_segments example_env example_segments (Some ''00:00:05'') (Some ''00:00:09'')
             empty_world)
       = Inr (map segment_file [example_segments ! 1, example_segments ! 2])"
    unfolding example_files by (rule example_download)
qed

theorem stop_rule_witness:
  "well_formed example_segments \<and> list_all (\<lambda>s. 0 \<le> dur s) example_segments
   \<and> (2::nat) < length example_segments \<and> current_time_at 0 example_segments 2 > 6
   \<and> stop_index 5 6 0 example_segments = 2 \<and> stop_rule 5 6 0 example_segments 2
   \<and> \<not> skip_rule 5 0 example_segments 1
   \<and> download_loop example_env 5 6 example_segments 0 [] empty_world
       = download_loop example_env 5 6 (take 2 example_segments) 0 [] empty_world
   \<and> example_segments ! 1 \<in> set (buildPlan 5 6 0 example_segments)"
proof -
  have len: "(2::nat) < length example_segments"
    by (simp add: example_segments_def)
  have ct: "current_time_at 0 example_segments 2 > 6"
    by (simp add: example_segments_def current_time_at_def dur_def)
  have si: "stop_index 5 6 0 example_segments = 2"
    by (simp add: example_segments_def stop_index_Cons dur_def)
  have sr: "stop_rule 5 6 0 example_segments 2"
    by (simp add: example_segments_def stop_rule_def skip_rule_def current_time_at_def dur_def)
  have ns: "\<not> skip_rule 5 0 example_segments 1"
    by (simp add: example_segments_def skip_rule_def current_time_at_def dur_def)
  note spec = stop_rule_spec [of example_segments example_env 5 6 "[]" empty_world 2]
  from spec example_well_formed
  have a: "download_loop example_env 5 6 example_segments 0 [] empty_world
       = download_loop example_env 5 6 (take (stop_index 5 6 0 example_segments) example_segments)
           0 [] empty_world"
    by blast
  from spec example_well_formed
  have "\<forall>i<stop_index 5 6 0 example_segments. \<not> skip_rule 5 0 example_segments i \<longrightarrow>
           example_segments ! i \<in> set (buildPlan 5 6 0 example_segments)"
    by blast
  then have b: "example_segments ! 1 \<in> set (buildPlan 5 6 0 example_segments)"
    using ns unfolding si by simp
  show ?thesis
    unfolding list_all_iff
    using example_well_formed example_nonneg len ct si sr ns a b by simp
qed

text \<open>
  C1 as stated fails for a manifest with a negative duration. With durations 10, -8 and 4,
  start 3 and end 5, the second descriptor is reached with \<open>current_time = 10 > 5\<close>, but it
  is skipped (\<open>10 - 8 < 3\<close>) and the loop goes on: the third descriptor is reached with
  \<open>current_time = 2\<close> and downloaded, so the plan is not the plan of the first descriptor
  alone.
\<close>

theorem stop_rule_counterexample:
  "parse_m3u8_file example_env negative_manifest = Inr negative_segments
   \<and> current_time_at 0 negative_segments 1 > 5
   \<and> fst (download_loop example_env 3 5 negative_segments 0 [] empty_world)
       = Inr [''segments/a.ts'', ''segments/c.ts'']
   \<and> fst (download_loop example_env 3 5 (take 1 negative_segments) 0 [] empty_world)
       = Inr [''segments/a.ts'']"
proof (intro conjI)
  show "parse_m3u8_file example_env negative_manifest = Inr negative_segments"
    by (simp add: negative_manifest_def negative_segments_def example_parse_simps)
  show "current_time_at 0 negative_segments 1 > 5"
    by (simp add: negative_segments_def current_time_at_def dur_def)
  show "fst (download_loop example_env 3 5 negative_segments 0 [] empty_world)
       = Inr [''segments/a.ts'', ''segments/c.ts'']"
    by (simp add: negative_segments_def example_loop_simps)
  show "fst (download_loop example_env 3 5 (take 1 negative_segments) 0 [] empty_world)
       = Inr [''segments/a.ts'']"
    by (simp add: negative_segments_def example_loop_simps)
qed

section \<open>The skip rule\<close>

text \<open>
  C2. Among the descriptors that the loop of \<open>download_segments\<close> reaches before it stops,
  exactly those with \<open>current_time + segment_duration < start_time\<close> are left out of the
  plan and of the files downloaded, where \<open>current_time\<close> is the sum of the durations of
  all descriptors before, the skipped ones too. A skipped descriptor changes nothing but
  \<open>current_time\<close>, which goes up by the duration of the segment.
\<close>

theorem skip_rule_spec:
  "(well_formed segs \<longrightarrow>
      buildPlan st en 0 segs =
        map (nth segs) (filter (\<lambda>i. \<not> skip_rule st 0 segs i) [0..<stop_index st en 0 segs]))
   \<and> (well_formed segs \<and> (\<forall>s\<in>set segs. fetch_ok e s) \<longrightarrow>
      fst (download_loop e st en segs 0 [] w) =
        Inr (map (\<lambda>i. segment_file (segs ! i))
               (filter (\<lambda>i. \<not> skip_rule st 0 segs i) [0..<stop_index st en 0 segs])))
   \<and> (duration seg = Some d \<and> url seg = Some u \<and> t + d < st \<longrightarrow>
      download_loop e st en (seg # rest) t files w = download_loop e st en rest (t + d) files w)"
proof (intro conjI impI)
  assume wf: "well_formed segs"
  show "buildPlan st en 0 segs =
        map (nth segs) (filter (\<lambda>i. \<not> skip_rule st 0 segs i) [0..<stop_index st en 0 segs])"
    by (rule buildPlan_closed [OF wf])
next
  assume a: "well_formed segs \<and> (\<forall>s\<in>set segs. fetch_ok e s)"
  then have wf: "well_formed segs" and ok: "\<forall>s\<in>set segs. fetch_ok e s"
    by simp_all
  show "fst (download_loop e st en segs 0 [] w) =
        Inr (map (\<lambda>i. segment_file (segs ! i))
               (filter (\<lambda>i. \<not> skip_rule st 0 segs i) [0..<stop_index st en 0 segs]))"
    unfolding download_loop_files [OF wf ok] buildPlan_closed [OF wf]
    by (simp add: comp_def)
next
  assume "duration seg = Some d \<and> url seg = Some u \<and> t + d < st"
  then show "download_loop e st en (seg # rest) t files w
               = download_loop e st en rest (t + d) files w"
    by simp
qed

theorem skip_rule_witness:
  "well_formed example_segments \<and> list_all (fetch_ok example_env) example_segments
   \<and> skip_rule 5 0 example_segments 0 \<and> \<not> skip_rule 5 0 example_segments 1
   \<and> \<not> skip_rule 5 0 example_segments 2 \<and> stop_index 5 9 0 example_segments = 3
   \<and> fst (download_loop example_env 5 9 example_segments 0 [] empty_world)
       = Inr [segment_file (example_segments ! 1), segment_file (example_segments ! 2)]
   \<and> duration (example_segments ! 0) = Some 4
   \<and> url (example_segments ! 0) = Some ''http://h/v/seg1.ts?t=1'' \<and> (0::real) + 4 < 5
   \<and> download_loop example_env 5 9 (example_segments ! 0 # tl example_segments) 0 [] empty_world
       = download_loop example_env 5 9 (tl example_segments) (0 + 4) [] empty_world"
proof -
  have sk: "skip_rule 5 0 example_segments 0" "\<not> skip_rule 5 0 example_segments 1"
    "\<not> skip_rule 5 0 example_segments 2"
    by (simp_all add: example_segments_def skip_rule_def current_time_at_def dur_def)
  have si: "stop_index 5 9 0 example_segments = 3"
    by (simp add: example_segments_def stop_index_Cons dur_def)
  have idx: "[0..<3] = [0, 1, 2]"
    by (simp add: upt_rec)
  have seg0: "duration (example_segments ! 0) = Some 4"
    "url (example_segments ! 0) = Some ''http://h/v/seg1.ts?t=1''"
    by (simp_all add: example_segments_def)
  note spec = skip_rule_spec [of example_segments 5 9 example_env empty_world
      "example_segments ! 0" 4 "''http://h/v/seg1.ts?t=1''" 0 "tl example_segments" "[]"]
  from spec example_well_formed example_fetch_ok
  have "fst (download_loop example_env 5 9 example_segments 0 [] empty_world) =
        Inr (map (\<lambda>i. segment_file (example_segments ! i))
               (filter (\<lambda>i. \<not> skip_rule 5 0 example_segments i)
                  [0..<stop_index 5 9 0 example_segments]))"
    by blast
  then have a: "fst (download_loop example_env 5 9 example_segments 0 [] empty_world)
       = Inr [segment_file (example_segments ! 1), segment_file (example_segments ! 2)]"
    unfolding si idx using sk by simp
  from spec seg0
  have b: "download_loop example_env 5 9 (example_segments ! 0 # tl example_segments) 0 []
             empty_world
       = download_loop example_env 5 9 (tl example_segments) (0 + 4) [] empty_world"
    by simp
  show ?thesis
    unfolding list_all_iff
    using example_well_formed example_fetch_ok sk si a seg0 b by simp
qed

lemma download_segments_files:
  assumes "well_formed segs" and "\<forall>s\<in>set segs. fetch_ok e s"
    and "time_window e segs a b = Inr (st, en)"
  shows "download_segments e segs a b w =
     (Inr (map segment_file (buildPlan st en 0 segs)),
      w\<lparr>requested := requested w @ map (\<lambda>s. the (url s)) (buildPlan st en 0 segs),
        fs := write_segments e (buildPlan st en 0 segs) (fs w),
        progress := sum_list (map dur (buildPlan st en 0 segs))\<rparr>)"
  unfolding download_segments_loop [OF assms(3)] download_loop_files [OF assms(1,2)]
  by simp

section \<open>The window downloaded\<close>



section \<open>The plan has no gaps\<close>

text \<open>
  C9. For a manifest whose durations are all non-negative and any window, the plan of
  \<open>download_segments\<close> is a run of consecutive descriptors of the manifest, and these are
  the files it returns when every request succeeds; once the skip condition fails at a
  descriptor it fails at every later one.
\<close>

theorem plan_contiguous:
  "well_formed segs \<and> (\<forall>s\<in>set segs. 0 \<le> dur s) \<longrightarrow>
   (\<exists>i j. buildPlan st en 0 segs = take j (drop i segs)
      \<and> ((\<forall>s\<in>set segs. fetch_ok e s) \<longrightarrow>
           fst (download_loop e st en segs 0 [] w) = Inr (map segment_file (take j (drop i segs)))))
   \<and> (\<forall>i k. i \<le> k \<and> k < length segs \<and> \<not> skip_rule st 0 segs i \<longrightarrow> \<not> skip_rule st 0 segs k)"
proof (intro impI conjI)
  assume a: "well_formed segs \<and> (\<forall>s\<in>set segs. 0 \<le> dur s)"
  then have wf: "well_formed segs" and nn: "\<forall>s\<in>set segs. 0 \<le> dur s"
    by simp_all
  from buildPlan_contiguous [OF wf nn, of st en 0]
  obtain i j where ij: "buildPlan st en 0 segs = take j (drop i segs)" by blast
  have "(\<forall>s\<in>set segs. fetch_ok e s) \<longrightarrow>
           fst (download_loop e st en segs 0 [] w) = Inr (map segment_file (take j (drop i segs)))"
    by (simp add: download_loop_files [OF wf] ij)
  with ij show "\<exists>i j. buildPlan st en 0 segs = take j (drop i segs)
      \<and> ((\<forall>s\<in>set segs. fetch_ok e s) \<longrightarrow>
           fst (download_loop e st en segs 0 [] w) = Inr (map segment_file (take j (drop i segs))))"
    by blast
  show "\<forall>i k. i \<le> k \<and> k < length segs \<and> \<not> skip_rule st 0 segs i \<longrightarrow> \<not> skip_rule st 0 segs k"
  proof (intro allI impI)
    fix i k
    assume h: "i \<le> k \<and> k < length segs \<and> \<not> skip_rule st 0 segs i"
    then have ik: "i \<le> k" and k: "k < length segs" and ns: "\<not> skip_rule st 0 segs i"
      by simp_all
    have mono: "sum_list (map dur (take (Suc i) segs)) \<le> sum_list (map dur (take (Suc k) segs))"
    proof -
      have "take (Suc k) segs = take (Suc i) segs @ take (k - i) (drop (Suc i) segs)"
        using ik by (metis Suc_le_mono add_Suc le_add_diff_inverse take_add)
      moreover have "0 \<le> sum_list (map dur (take (k - i) (drop (Suc i) segs)))"
        using nn by (intro sum_list_nonneg) (auto dest!: in_set_takeD in_set_dropD)
      ultimately show ?thesis by simp
    qed
    have suc: "\<And>n. n < length segs \<Longrightarrow>
        sum_list (map dur (take (Suc n) segs)) = sum_list (map dur (take n segs)) + dur (segs ! n)"
      by (simp add: take_Suc_conv_app_nth)
    from ns mono show "\<not> skip_rule st 0 segs k"
      using suc [of i] suc [OF k] ik k
      by (simp add: skip_rule_def current_time_at_def)
  qed
qed

theorem plan_contiguous_witness:
  "well_formed example_segments \<and> list_all (\<lambda>s. 0 \<le> dur s) example_segments
   \<and> list_all (fetch_ok example_env) example_segments
   \<and> (1::nat) \<le> 2 \<and> (2::nat) < length example_segments \<and> \<not> skip_rule 5 0 example_segments 1
   \<and> \<not> skip_rule 5 0 example_segments 2
   \<and> (\<exists>i j. buildPlan 5 9 0 example_segments = take j (drop i example_segments)
        \<and> fst (download_loop example_env 5 9 example_segments 0 [] empty_world)
            = Inr (map segment_file (take j (drop i example_segments))))"
proof -
  have len: "(2::nat) < length example_segments"
    by (simp add: example_segments_def)
  have ns: "\<not> skip_rule 5 0 example_segments 1"
    by (simp add: example_segments_def skip_rule_def current_time_at_def dur_def)
  note spec = plan_contiguous [of example_segments 5 9 example_env empty_world]
  from spec example_well_formed example_nonneg
  have "\<forall>i k. i \<le> k \<and> k < length example_segments \<and> \<not> skip_rule 5 0 example_segments i
          \<longrightarrow> \<not> skip_rule 5 0 example_segments k"
    by blast
  with len ns have a: "\<not> skip_rule 5 0 example_segments 2"
    by (metis one_le_numeral)
  from spec example_well_formed example_nonneg example_fetch_ok
  have b: "\<exists>i j. buildPlan 5 9 0 example_segments = take j (drop i example_segments)
        \<and> fst (download_loop example_env 5 9 example_segments 0 [] empty_world)
            = Inr (map segment_file (take j (drop i example_segments)))"
    by blast
  show ?thesis
    unfolding list_all_iff
    using example_well_formed example_nonneg example_fetch_ok len ns a b by simp
qed

lemma keyless_parse: "parse_m3u8_file example_env keyless_manifest = Inr keyless_segments"
  by (simp add: keyless_manifest_def keyless_segments_def example_parse_simps)

lemma env_with_pyfloat: "pyfloat (env_with m) = pyfloat example_env"
  by (simp add: env_with_def)

lemma parse_lines_env: "pyfloat e = pyfloat e' \<Longrightarrow> parse_lines e ls cur acc = parse_lines e' ls cur acc"
  by (induction ls arbitrary: cur acc) (simp_all split: list.splits sum.splits)

lemma parse_env_with: "parse_m3u8_file (env_with m) text = parse_m3u8_file example_env text"
  unfolding parse_m3u8_file_def by (rule parse_lines_env [OF env_with_pyfloat])

lemma fetch_manifest:
  "download_m3u8_file (env_with m) ''http://h/v.m3u8'' w
     = (Inr m, w\<lparr>requested := requested w @ [''http://h/v.m3u8'']\<rparr>)"
  by (simp add: download_m3u8_file_def env_with_def serve_def)

section \<open>A URL line without a duration tag\<close>

text \<open>
  C3. A URL line with no duration tag before it makes \<open>parse_m3u8_file\<close> return a
  descriptor without the key \<open>'duration'\<close>, not one of duration zero, and the sum of line
  81 of \<open>download_segments\<close> then raises \<open>KeyError\<close>, which nothing catches: the program
  ends with a traceback.
\<close>

theorem missing_duration_raises:
  "parse_m3u8_file example_env keyless_manifest = Inr keyless_segments
   \<and> duration (keyless_segments ! 0) = None
   \<and> download_segments example_env keyless_segments None None empty_world
       = (Inl (KeyError ''duration''), empty_world)
   \<and> fst (main (env_with keyless_manifest) example_args empty_world)
       = Traceback (KeyError ''duration'')"
proof (intro conjI)
  show "parse_m3u8_file example_env keyless_manifest = Inr keyless_segments"
    by (rule keyless_parse)
  show "duration (keyless_segments ! 0) = None"
    by (simp add: keyless_segments_def)
  show ds: "download_segments example_env keyless_segments None None empty_world
       = (Inl (KeyError ''duration''), empty_world)"
    by (simp add: download_segments_def time_window_def keyless_segments_def)
  have "download_segments (env_with keyless_manifest) keyless_segments None None w
       = (Inl (KeyError ''duration''), w)" for w
    by (simp add: download_segments_def time_window_def keyless_segments_def)
  then show "fst (main (env_with keyless_manifest) example_args empty_world)
       = Traceback (KeyError ''duration'')"
    by (simp add: main_def download_video_def example_args_def fetch_manifest parse_env_with
        keyless_parse)
qed

lemma parse_lines_urls:
  "parse_lines e ls cur acc = Inr out \<Longrightarrow>
   \<forall>s\<in>set out. s \<in> set acc \<or> (\<exists>l\<in>set ls. \<not> startswith l ''#'' \<and> url s = Some (str_strip l))"
proof (induction ls arbitrary: cur acc)
  case Nil
  then show ?case by simp
next
  case (Cons line rest)
  show ?case
  proof (cases "startswith line ''#EXTINF:''")
    case True
    with Cons.prems obtain cur' where "parse_lines e rest cur' acc = Inr out"
      by (auto split: list.splits sum.splits)
    from Cons.IH [OF this] show ?thesis by auto
  next
    case ne: False
    show ?thesis
    proof (cases "startswith line ''#''")
      case True
      with ne Cons.prems have "parse_lines e rest cur acc = Inr out" by simp
      from Cons.IH [OF this] show ?thesis by auto
    next
      case False
      with ne Cons.prems
      have "parse_lines e rest empty_segment (acc @ [cur\<lparr>url := Some (str_strip line)\<rparr>]) = Inr out"
        by simp
      from Cons.IH [OF this] False show ?thesis by auto
    qed
  qed
qed

lemma parse_lines_comments:
  "\<forall>l\<in>set post. startswith l ''#'' \<Longrightarrow> parse_lines e post cur acc = Inr out \<Longrightarrow> out = acc"
proof (induction post arbitrary: cur)
  case Nil
  then show ?case by simp
next
  case (Cons line rest)
  then have c: "startswith line ''#''" and cs: "\<forall>l\<in>set rest. startswith l ''#''"
    by simp_all
  from Cons.prems(2) c obtain cur' where "parse_lines e rest cur' acc = Inr out"
    by (auto split: list.splits sum.splits if_splits)
  from Cons.IH [OF cs this] show ?case .
qed

lemma parse_lines_drop_comments:
  "\<forall>l\<in>set post. startswith l ''#'' \<Longrightarrow> parse_lines e (pre @ post) cur acc = Inr out \<Longrightarrow>
   parse_lines e pre cur acc = Inr out"
proof (induction pre arbitrary: cur acc)
  case Nil
  from Nil(2) have "parse_lines e post cur acc = Inr out" by simp
  from parse_lines_comments [OF Nil(1) this] show ?case by simp
next
  case (Cons line rest)
  note IH = Cons.IH [OF Cons.prems(1)]
  from Cons.prems(2) show ?case
    by (auto split: list.splits sum.splits if_splits intro: IH)
qed

section \<open>Lines of the manifest\<close>

text \<open>
  C4, as amended. Every URL in the output of \<open>parse_m3u8_file\<close> is the stripped text of an
  input line that does not start with \<open>#\<close>: a comment line is never a URL. When the last
  duration tag is followed, up to the end of the input, by nothing or by lines starting
  with \<open>#\<close> only, the output is the output for the lines before that tag: there is no
  entry for the tag, and every URL in it comes from a line before the tag.
\<close>

theorem parse_drops_dangling:
  "(parse_m3u8_file e text = Inr out \<longrightarrow>
      (\<forall>s\<in>set out. \<exists>l\<in>set (splitlines text). \<not> startswith l ''#'' \<and> url s = Some (str_strip l)))
   \<and> (splitlines text = pre @ tag # post \<and> startswith tag ''#EXTINF:''
        \<and> (\<forall>l\<in>set post. startswith l ''#'') \<and> parse_m3u8_file e text = Inr out \<longrightarrow>
      parse_lines e pre empty_segment [] = Inr out
      \<and> (\<forall>s\<in>set out. \<exists>l\<in>set pre. \<not> startswith l ''#'' \<and> url s = Some (str_strip l)))"
proof (intro conjI impI)
  assume "parse_m3u8_file e text = Inr out"
  then show "\<forall>s\<in>set out. \<exists>l\<in>set (splitlines text). \<not> startswith l ''#'' \<and> url s = Some (str_strip l)"
    unfolding parse_m3u8_file_def using parse_lines_urls by fastforce
next
  assume a: "splitlines text = pre @ tag # post \<and> startswith tag ''#EXTINF:''
        \<and> (\<forall>l\<in>set post. startswith l ''#'') \<and> parse_m3u8_file e text = Inr out"
  then have tag: "startswith tag ''#''"
    by (auto simp: startswith_def dest: arg_cong [where f = "take 1"])
  with a have "\<forall>l\<in>set (tag # post). startswith l ''#''" by simp
  moreover from a have "parse_lines e (pre @ tag # post) empty_segment [] = Inr out"
    by (auto simp: parse_m3u8_file_def)
  ultimately show p: "parse_lines e pre empty_segment [] = Inr out"
    by (rule parse_lines_drop_comments)
  from parse_lines_urls [OF p]
  show "\<forall>s\<in>set out. \<exists>l\<in>set pre. \<not> startswith l ''#'' \<and> url s = Some (str_strip l)"
    by simp
qed

theorem parse_drops_dangling_witness:
  "splitlines dangling_manifest
     = [''#EXTINF:4.0,'', ''http://h/v/seg1.ts''] @ ''#EXTINF:5.0,'' # [''#EXT-X-ENDLIST'']
   \<and> startswith ''#EXTINF:5.0,'' ''#EXTINF:''
   \<and> list_all (\<lambda>l. startswith l ''#'') [''#EXT-X-ENDLIST'']
   \<and> parse_m3u8_file example_env dangling_manifest
       = Inr [\<lparr>duration = Some 4, url = Some ''http://h/v/seg1.ts''\<rparr>]
   \<and> parse_lines example_env [''#EXTINF:4.0,'', ''http://h/v/seg1.ts''] empty_segment []
       = Inr [\<lparr>duration = Some 4, url = Some ''http://h/v/seg1.ts''\<rparr>]"
proof -
  have sl: "splitlines dangling_manifest
     = [''#EXTINF:4.0,'', ''http://h/v/seg1.ts''] @ ''#EXTINF:5.0,'' # [''#EXT-X-ENDLIST'']"
    by (simp add: dangling_manifest_def splitlines_def is_linebreak_def)
  have tag: "startswith ''#EXTINF:5.0,'' ''#EXTINF:''"
    by (simp add: startswith_def)
  have post: "\<forall>l\<in>set [''#EXT-X-ENDLIST'']. startswith l ''#''"
    by (simp add: startswith_def)
  have parse: "parse_m3u8_file example_env dangling_manifest
       = Inr [\<lparr>duration = Some 4, url = Some ''http://h/v/seg1.ts''\<rparr>]"
    by (simp add: dangling_manifest_def example_parse_simps)
  from parse_drops_dangling [of example_env dangling_manifest
      "[\<lparr>duration = Some 4, url = Some ''http://h/v/seg1.ts''\<rparr>]"
      "[''#EXTINF:4.0,'', ''http://h/v/seg1.ts'']" "''#EXTINF:5.0,''" "[''#EXT-X-ENDLIST'']"]
    sl tag post parse
  have "parse_lines example_env [''#EXTINF:4.0,'', ''http://h/v/seg1.ts''] empty_segment []
       = Inr [\<lparr>duration = Some 4, url = Some ''http://h/v/seg1.ts''\<rparr>]"
    by blast
  then show ?thesis
    unfolding list_all_iff using sl tag post parse by blast
qed

text \<open>
  C4 as stated fails when a blank line follows the last duration tag: a blank line does not
  start with \<open>#\<close>, so line 61 takes it for a URL line, and the output has an entry with
  the duration of the tag and the empty URL.
\<close>

theorem blank_line_counterexample:
  "splitlines blank_manifest = [''#EXTINF:4.0,'', []]
   \<and> parse_m3u8_file example_env blank_manifest = Inr [\<lparr>duration = Some 4, url = Some []\<rparr>]"
  by (simp add: blank_manifest_def example_parse_simps)

section \<open>Characters of paths and lines\<close>

lemma split_from_field:
  "c \<notin> set l \<Longrightarrow> split_from c cur (l @ c # rest) = (cur @ l) # split_from c [] rest"
  by (induction l arbitrary: cur) auto

lemma split_from_lines:
  "\<forall>l\<in>set ls. c \<notin> set l \<Longrightarrow>
   split_from c [] (concat (map (\<lambda>l. l @ [c]) ls)) = ls @ [[]]"
proof (induction ls)
  case Nil
  then show ?case by simp
next
  case (Cons l ls)
  then have "c \<notin> set l" by simp
  from split_from_field [OF this, of "[]" "concat (map (\<lambda>l. l @ [c]) ls)"] Cons
  show ?case by simp
qed

lemma text_lines_concat:
  "\<forall>l\<in>set ls. CHR 0x0A \<notin> set l \<Longrightarrow> text_lines (concat (map (\<lambda>l. l @ [CHR 0x0A]) ls)) = ls"
  by (simp add: text_lines_def str_split_def split_from_lines)

lemma foldl_append_concat: "foldl (\<lambda>f x. f @ g x) acc xs = acc @ concat (map g xs)"
  by (induction xs arbitrary: acc) simp_all

lemma concat_file_content:
  "fs (snd (create_concat_file e files w)) ''segments.txt''
     = Some (concat (map (concat_line e) files))"
  by (simp add: create_concat_file_def foldl_append_concat)

lemma split_from_chars: "set (concat (split_from c cur s)) \<subseteq> set cur \<union> set s"
proof (induction s arbitrary: cur)
  case Nil
  then show ?case by simp
next
  case (Cons x xs)
  show ?case
  proof (cases "x = c")
    case True
    with Cons [of "[]"] show ?thesis by auto
  next
    case False
    with Cons [of "cur @ [x]"] show ?thesis by auto
  qed
qed

lemma str_split_chars: "p \<in> set (str_split c s) \<Longrightarrow> set p \<subseteq> set s"
  using split_from_chars [of c "[]" s] by (auto simp: str_split_def)

lemma normpath_step_parts:
  "set (normpath_step n comps part) \<subseteq> insert part (set comps)"
  by (auto simp: normpath_step_def dest: in_set_butlastD)

lemma foldl_normpath_parts:
  "set (foldl (normpath_step n) comps parts) \<subseteq> set comps \<union> set parts"
proof (induction parts arbitrary: comps)
  case Nil
  then show ?case by simp
next
  case (Cons part parts)
  from Cons [of "normpath_step n comps part"] normpath_step_parts [of n comps part]
  show ?case by auto
qed

lemma str_join_chars: "set (str_join sep xs) \<subseteq> set sep \<union> \<Union> (set ` set xs)"
  by (induction sep xs rule: str_join.induct) auto

lemma normpath_chars: "set (normpath p) \<subseteq> set p \<union> {CHR ''/'', CHR ''.''}"
proof -
  have "set (str_join ''/'' (foldl (normpath_step n) [] (str_split CHR ''/'' p)))
          \<subseteq> set p \<union> {CHR ''/''}" for n
  proof
    fix x
    assume "x \<in> set (str_join ''/'' (foldl (normpath_step n) [] (str_split CHR ''/'' p)))"
    with str_join_chars [of "''/''" "foldl (normpath_step n) [] (str_split CHR ''/'' p)"]
    have "x = CHR ''/'' \<or> (\<exists>part\<in>set (foldl (normpath_step n) [] (str_split CHR ''/'' p)). x \<in> set part)"
      by auto
    then show "x \<in> set p \<union> {CHR ''/''}"
      using foldl_normpath_parts [of n "[]" "str_split CHR ''/'' p"] str_split_chars [of _ "CHR ''/''" p]
      by auto
  qed
  then show ?thesis
    by (auto simp: normpath_def Let_def)
qed

lemma os_path_join_chars: "set (os_path_join a b) \<subseteq> set a \<union> set b \<union> {CHR ''/''}"
  by (auto simp: os_path_join_def)

lemma abspath_chars: "set (abspath e p) \<subseteq> set (getcwd e) \<union> set p \<union> {CHR ''/'', CHR ''.''}"
  using normpath_chars [of p] normpath_chars [of "os_path_join (getcwd e) p"]
    os_path_join_chars [of "getcwd e" p]
  by (auto simp: abspath_def)

lemma normpath_absolute: "startswith p ''/'' \<Longrightarrow> startswith (normpath p) ''/''"
  by (auto simp: normpath_def Let_def startswith_def)

lemma abspath_absolute: "startswith (getcwd e) ''/'' \<Longrightarrow> startswith (abspath e p) ''/''"
proof -
  assume cwd: "startswith (getcwd e) ''/''"
  have "startswith (os_path_join (getcwd e) p) ''/''" if "\<not> startswith p ''/''"
    using cwd that by (cases "getcwd e") (auto simp: os_path_join_def startswith_def)
  then show ?thesis
    by (auto simp: abspath_def intro: normpath_absolute)
qed

lemma splitlines_from_chars:
  "\<forall>l\<in>set (splitlines_from cur s). set l \<subseteq> set cur \<union> {c \<in> set s. \<not> is_linebreak c}"
proof (induction cur s rule: splitlines_from.induct)
  case (1 cur)
  then show ?case by simp
next
  case (2 cur c)
  then show ?case by auto
next
  case (3 cur c d cs)
  show ?case
  proof (cases "c = CHR 0x0D \<and> d = CHR 0x0A")
    case True
    with 3(1) show ?thesis by fastforce
  next
    case False
    show ?thesis
    proof (cases "is_linebreak c")
      case True
      with False 3(2) show ?thesis by fastforce
    next
      case nl: False
      with False 3(3) show ?thesis by fastforce
    qed
  qed
qed

lemma splitlines_no_linefeed: "l \<in> set (splitlines s) \<Longrightarrow> CHR 0x0A \<notin> set l"
  using splitlines_from_chars [of "[]" s] by (auto simp: splitlines_def is_linebreak_def)

lemma str_strip_chars: "set (str_strip l) \<subseteq> set l"
  unfolding str_strip_def
  by (metis set_dropWhileD set_rev subsetI)

lemma parsed_url_no_linefeed:
  assumes "parse_m3u8_file e text = Inr segs" and "s \<in> set segs"
  shows "\<exists>u. url s = Some u \<and> CHR 0x0A \<notin> set u"
proof -
  from assms parse_lines_urls [of e "splitlines text" empty_segment "[]" segs]
  obtain l where l: "l \<in> set (splitlines text)" and u: "url s = Some (str_strip l)"
    by (auto simp: parse_m3u8_file_def)
  from splitlines_no_linefeed [OF l] str_strip_chars [of l]
  have "CHR 0x0A \<notin> set (str_strip l)" by blast
  with u show ?thesis by blast
qed

lemma split_from_nonempty: "split_from c cur s \<noteq> []"
  by (induction s arbitrary: cur) simp_all

lemma segment_basename_chars: "set (segment_basename u) \<subseteq> set u"
proof -
  have ne: "str_split c s \<noteq> []" for c s
    by (simp add: str_split_def split_from_nonempty)
  have "last (str_split CHR ''/'' u) \<in> set (str_split CHR ''/'' u)"
    using ne by simp
  then have a: "set (last (str_split CHR ''/'' u)) \<subseteq> set u"
    by (rule str_split_chars)
  have "hd (str_split CHR ''?'' (last (str_split CHR ''/'' u)))
          \<in> set (str_split CHR ''?'' (last (str_split CHR ''/'' u)))"
    using ne by simp
  then have "set (hd (str_split CHR ''?'' (last (str_split CHR ''/'' u))))
          \<subseteq> set (last (str_split CHR ''/'' u))"
    by (rule str_split_chars)
  with a show ?thesis by (auto simp: segment_basename_def)
qed

lemma segment_name_chars:
  "set (segment_name u) \<subseteq> set ''segments'' \<union> set u \<union> {CHR ''/''}"
  unfolding segment_name_def
  using segment_basename_chars [of u] os_path_join_chars [of "''segments''" "segment_basename u"]
  by blast

lemma concat_lines_text:
  assumes "CHR 0x0A \<notin> set (getcwd e)" and "\<forall>f\<in>set files. CHR 0x0A \<notin> set f"
  shows "text_lines (concat (map (concat_line e) files))
           = map (\<lambda>f. ''file '' @ [CHR 0x27] @ abspath e f @ [CHR 0x27]) files"
proof -
  let ?q = "\<lambda>f. ''file '' @ [CHR 0x27] @ abspath e f @ [CHR 0x27]"
  have nl: "CHR 0x0A \<notin> set (?q f)" if "f \<in> set files" for f
    using abspath_chars [of e f] assms that by auto
  have "concat_line e = (\<lambda>f. ?q f @ [CHR 0x0A])"
    by (rule ext) (simp add: concat_line_def)
  then have "concat (map (concat_line e) files) = concat (map (\<lambda>l. l @ [CHR 0x0A]) (map ?q files))"
    by (simp add: comp_def)
  moreover have "\<forall>l\<in>set (map ?q files). CHR 0x0A \<notin> set l"
    using nl by auto
  ultimately show ?thesis
    using text_lines_concat [of "map ?q files"] by simp
qed

lemma example_abspath:
  "abspath example_env ''segments/seg2.ts'' = ''/home/u/segments/seg2.ts''"
  "abspath example_env ''segments/seg3.ts'' = ''/home/u/segments/seg3.ts''"
  by (simp_all add: abspath_def normpath_def normpath_step_def os_path_join_def startswith_def
      example_env_def str_split_def)

section \<open>The concatenation manifest\<close>

text \<open>
  C8. \<open>create_concat_file\<close> writes to \<open>segments.txt\<close> one line per segment file, in the
  order of the list it is given: for a working directory and file names without a line
  feed, the lines of the file are exactly \<open>file '<abspath>'\<close> for each of the N files, in
  order, so there are N of them, and each path is absolute when the working directory is.
  For a manifest parsed by \<open>parse_m3u8_file\<close> the file names never hold a line feed, and
  the lines are those of the plan of \<open>download_segments\<close>, in the order of the plan.
\<close>

theorem concat_file_lines:
  "fst (create_concat_file e files w) = ''segments.txt''
   \<and> fs (snd (create_concat_file e files w)) ''segments.txt''
       = Some (concat (map (concat_line e) files))
   \<and> (CHR 0x0A \<notin> set (getcwd e) \<and> (\<forall>f\<in>set files. CHR 0x0A \<notin> set f) \<longrightarrow>
        text_lines (concat (map (concat_line e) files))
          = map (\<lambda>f. ''file '' @ [CHR 0x27] @ abspath e f @ [CHR 0x27]) files
        \<and> length (text_lines (concat (map (concat_line e) files))) = length files)
   \<and> (startswith (getcwd e) ''/'' \<longrightarrow> (\<forall>f\<in>set files. startswith (abspath e f) ''/''))
   \<and> (CHR 0x0A \<notin> set (getcwd e) \<and> parse_m3u8_file e text = Inr segs \<and> well_formed segs
        \<and> (\<forall>s\<in>set segs. fetch_ok e s) \<and> time_window e segs a b = Inr (st, en) \<longrightarrow>
        fst (download_segments e segs a b w) = Inr (map segment_file (buildPlan st en 0 segs))
        \<and> text_lines (concat (map (concat_line e) (map segment_file (buildPlan st en 0 segs))))
            = map (\<lambda>s. ''file '' @ [CHR 0x27] @ abspath e (segment_file s) @ [CHR 0x27])
                (buildPlan st en 0 segs))"
proof (intro conjI impI)
  show "fst (create_concat_file e files w) = ''segments.txt''"
    by (simp add: create_concat_file_def)
  show "fs (snd (create_concat_file e files w)) ''segments.txt''
       = Some (concat (map (concat_line e) files))"
    by (rule concat_file_content)
next
  assume a: "CHR 0x0A \<notin> set (getcwd e) \<and> (\<forall>f\<in>set files. CHR 0x0A \<notin> set f)"
  then show l: "text_lines (concat (map (concat_line e) files))
          = map (\<lambda>f. ''file '' @ [CHR 0x27] @ abspath e f @ [CHR 0x27]) files"
    using concat_lines_text by blast
  show "length (text_lines (concat (map (concat_line e) files))) = length files"
    unfolding l by simp
next
  assume "startswith (getcwd e) ''/''"
  then show "\<forall>f\<in>set files. startswith (abspath e f) ''/''"
    using abspath_absolute by blast
next
  assume a: "CHR 0x0A \<notin> set (getcwd e) \<and> parse_m3u8_file e text = Inr segs \<and> well_formed segs
        \<and> (\<forall>s\<in>set segs. fetch_ok e s) \<and> time_window e segs a b = Inr (st, en)"
  then have cwd: "CHR 0x0A \<notin> set (getcwd e)" and parse: "parse_m3u8_file e text = Inr segs"
    and wf: "well_formed segs" and ok: "\<forall>s\<in>set segs. fetch_ok e s"
    and tw: "time_window e segs a b = Inr (st, en)"
    by simp_all
  show "fst (download_segments e segs a b w) = Inr (map segment_file (buildPlan st en 0 segs))"
    by (simp add: download_segments_files [OF wf ok tw])
  have "CHR 0x0A \<notin> set (segment_file s)" if "s \<in> set segs" for s
  proof -
    from parsed_url_no_linefeed [OF parse that]
    obtain u where u: "url s = Some u" and nl: "CHR 0x0A \<notin> set u" by blast
    have "CHR 0x0A \<notin> set ''segments'' \<union> set u \<union> {CHR ''/''}"
      using nl by simp
    with segment_name_chars [of u] show ?thesis
      unfolding segment_file_def u option.sel by blast
  qed
  then have "\<forall>f\<in>set (map segment_file (buildPlan st en 0 segs)). CHR 0x0A \<notin> set f"
    using buildPlan_subset [of st en 0 segs] by auto
  from concat_lines_text [OF cwd this]
  show "text_lines (concat (map (concat_line e) (map segment_file (buildPlan st en 0 segs))))
            = map (\<lambda>s. ''file '' @ [CHR 0x27] @ abspath e (segment_file s) @ [CHR 0x27])
                (buildPlan st en 0 segs)"
    by (simp add: comp_def)
qed

theorem concat_file_lines_witness:
  "CHR 0x0A \<notin> set (getcwd example_env)
   \<and> list_all (\<lambda>f. CHR 0x0A \<notin> set f) [''segments/seg2.ts'', ''segments/seg3.ts'']
   \<and> startswith (getcwd example_env) ''/''
   \<and> parse_m3u8_file example_env example_manifest = Inr example_segments
   \<and> well_formed example_segments \<and> list_all (fetch_ok example_env) example_segments
   \<and> time_window example_env example_segments (Some ''00:00:05'') (Some ''00:00:09'') = Inr (5, 9)
   \<and> fst (download_segments example_env example_segments (Some ''00:00:05'') (Some ''00:00:09'')
            empty_world) = Inr [''segments/seg2.ts'', ''segments/seg3.ts'']
   \<and> text_lines (concat (map (concat_line example_env) [''segments/seg2.ts'', ''segments/seg3.ts'']))
       = [''file '' @ [CHR 0x27] @ ''/home/u/segments/seg2.ts'' @ [CHR 0x27],
          ''file '' @ [CHR 0x27] @ ''/home/u/segments/seg3.ts'' @ [CHR 0x27]]
   \<and> length (text_lines (concat (map (concat_line example_env)
                [''segments/seg2.ts'', ''segments/seg3.ts'']))) = 2
   \<and> startswith (abspath example_env ''segments/seg2.ts'') ''/''"
proof -
  have cwd: "CHR 0x0A \<notin> set (getcwd example_env)" "startswith (getcwd example_env) ''/''"
    by (simp_all add: example_env_def startswith_def)
  have nl: "\<forall>f\<in>set [''segments/seg2.ts'', ''segments/seg3.ts'']. CHR 0x0A \<notin> set f"
    by simp
  note spec = concat_file_lines [of example_env "[''segments/seg2.ts'', ''segments/seg3.ts'']"
      empty_world example_manifest example_segments "Some ''00:00:05''" "Some ''00:00:09''" 5 9]
  from spec cwd(1) nl
  have "text_lines (concat (map (concat_line example_env) [''segments/seg2.ts'', ''segments/seg3.ts'']))
       = map (\<lambda>f. ''file '' @ [CHR 0x27] @ abspath example_env f @ [CHR 0x27])
           [''segments/seg2.ts'', ''segments/seg3.ts'']"
    by blast
  then have a: "text_lines (concat (map (concat_line example_env)
                   [''segments/seg2.ts'', ''segments/seg3.ts'']))
       = [''file '' @ [CHR 0x27] @ ''/home/u/segments/seg2.ts'' @ [CHR 0x27],
          ''file '' @ [CHR 0x27] @ ''/home/u/segments/seg3.ts'' @ [CHR 0x27]]"
    by (simp add: example_abspath)
  from spec cwd(2)
  have "\<forall>f\<in>set [''segments/seg2.ts'', ''segments/seg3.ts'']. startswith (abspath example_env f) ''/''"
    by blast
  then have b: "startswith (abspath example_env ''segments/seg2.ts'') ''/''"
    by simp
  from spec cwd(1) example_parse example_well_formed example_fetch_ok example_window
  have "fst (download_segments example_env example_segments (Some ''00:00:05'') (Some ''00:00:09'')
            empty_world) = Inr (map segment_file (buildPlan 5 9 0 example_segments))"
    by blast
  then have c: "fst (download_segments example_env example_segments (Some ''00:00:05'')
            (Some ''00:00:09'') empty_world) = Inr [''segments/seg2.ts'', ''segments/seg3.ts'']"
    unfolding example_plan example_files .
  have len: "length (text_lines (concat (map (concat_line example_env)
                [''segments/seg2.ts'', ''segments/seg3.ts'']))) = 2"
    unfolding a by simp
  show ?thesis
    unfolding list_all_iff
    using cwd nl example_parse example_well_formed example_fetch_ok example_window a b c len
    by blast
qed



section \<open>Two URLs with the same file name\<close>



section \<open>Time strings\<close>

lemma convert_ok:
  assumes "str_split CHR '':'' t = [a, b, c]"
    and "pyfloat e a = Inr h" and "pyfloat e b = Inr m" and "pyfloat e c = Inr s"
  shows "convert_time_to_seconds e t = Inr (h * 3600 + m * 60 + s)"
  using assms by (simp add: convert_time_to_seconds_def)

lemma convert_cases:
  "(\<exists>a b c h m s. str_split CHR '':'' t = [a, b, c] \<and> pyfloat e a = Inr h \<and> pyfloat e b = Inr m
       \<and> pyfloat e c = Inr s \<and> convert_time_to_seconds e t = Inr (h * 3600 + m * 60 + s))
   \<or> (\<exists>msg. convert_time_to_seconds e t = Inl (ValueError msg))"
  by (auto simp: convert_time_to_seconds_def Let_def split: option.splits list.splits sum.splits)

text \<open>
  C6. When the string splits at its colons into exactly three fields and \<open>float\<close> accepts
  each, \<open>convert_time_to_seconds\<close> returns \<open>h * 3600 + m * 60 + s\<close>; it raises a
  \<open>ValueError\<close> exactly when the string is not of this form, and raises nothing else.
  \<open>"01:02:03"\<close> gives 3723 and \<open>"00:00:00"\<close> gives 0.
\<close>

theorem convert_time_to_seconds_spec:
  "(str_split CHR '':'' t = [a, b, c] \<and> pyfloat e a = Inr h \<and> pyfloat e b = Inr m \<and> pyfloat e c = Inr s
      \<longrightarrow> convert_time_to_seconds e t = Inr (h * 3600 + m * 60 + s))
   \<and> ((\<exists>msg. convert_time_to_seconds e t = Inl (ValueError msg)) \<longleftrightarrow>
        \<not> (\<exists>a b c h m s. str_split CHR '':'' t = [a, b, c] \<and> pyfloat e a = Inr h
               \<and> pyfloat e b = Inr m \<and> pyfloat e c = Inr s))
   \<and> (\<forall>x. convert_time_to_seconds e t = Inl x \<longrightarrow> (\<exists>msg. x = ValueError msg))
   \<and> convert_time_to_seconds example_env ''01:02:03'' = Inr 3723
   \<and> convert_time_to_seconds example_env ''00:00:00'' = Inr 0"
proof (intro conjI)
  show "str_split CHR '':'' t = [a, b, c] \<and> pyfloat e a = Inr h \<and> pyfloat e b = Inr m \<and> pyfloat e c = Inr s
      \<longrightarrow> convert_time_to_seconds e t = Inr (h * 3600 + m * 60 + s)"
    by (simp add: convert_ok)
  show "(\<exists>msg. convert_time_to_seconds e t = Inl (ValueError msg)) \<longleftrightarrow>
        \<not> (\<exists>a b c h m s. str_split CHR '':'' t = [a, b, c] \<and> pyfloat e a = Inr h
               \<and> pyfloat e b = Inr m \<and> pyfloat e c = Inr s)"
    using convert_cases [of t e] by (auto simp: convert_ok)
  show "\<forall>x. convert_time_to_seconds e t = Inl x \<longrightarrow> (\<exists>msg. x = ValueError msg)"
    using convert_cases [of t e] by auto
  show "convert_time_to_seconds example_env ''01:02:03'' = Inr 3723"
    by (simp add: convert_time_to_seconds_def example_float_simps)
  show "convert_time_to_seconds example_env ''00:00:00'' = Inr 0"
    by (simp add: convert_time_to_seconds_def example_float_simps)
qed

theorem convert_time_to_seconds_witness:
  "str_split CHR '':'' ''00:01:40'' = [''00'', ''01'', ''40'']
   \<and> pyfloat example_env ''00'' = Inr 0 \<and> pyfloat example_env ''01'' = Inr 1
   \<and> pyfloat example_env ''40'' = Inr 40
   \<and> convert_time_to_seconds example_env ''00:01:40'' = Inr (0 * 3600 + 1 * 60 + 40)
   \<and> (\<exists>msg. convert_time_to_seconds example_env ''1:30'' = Inl (ValueError msg))"
proof -
  have split: "str_split CHR '':'' ''00:01:40'' = [''00'', ''01'', ''40'']"
    by (simp add: str_split_def)
  have floats: "pyfloat example_env ''00'' = Inr 0" "pyfloat example_env ''01'' = Inr 1"
    "pyfloat example_env ''40'' = Inr 40"
    by (simp_all add: example_float_simps)
  have short: "\<not> (\<exists>a b c h m s. str_split CHR '':'' ''1:30'' = [a, b, c] \<and> pyfloat example_env a = Inr h
               \<and> pyfloat example_env b = Inr m \<and> pyfloat example_env c = Inr s)"
    by (simp add: str_split_def)
  from convert_time_to_seconds_spec [of "''00:01:40''" "''00''" "''01''" "''40''" example_env 0 1 40]
    split floats
  have "convert_time_to_seconds example_env ''00:01:40'' = Inr (0 * 3600 + 1 * 60 + 40)"
    by blast
  moreover from convert_time_to_seconds_spec [of "''1:30''" _ _ _ example_env] short
  have "\<exists>msg. convert_time_to_seconds example_env ''1:30'' = Inl (ValueError msg)"
    by blast
  ultimately show ?thesis using split floats by blast
qed

end
